theory Spec2Isabelle
  imports Main "HOL-Library.Word" "HOL-Library.Multiset" "HOL-Library.Char_ord"
    "HOL-Library.List_Lexorder" "HOL-Library.Product_Lexorder"
begin

section \<open>Data model of the DNS looper\<close>

text \<open>
  A \<open>net.IP\<close> is a byte slice; a nil slice is \<open>None\<close> wherever the code tests
  \<open>!= nil\<close>. A \<open>time.Duration\<close> and a wall-clock instant are counts of nanoseconds.
  The arithmetic of the scheduler stays far inside 64 bits for every period a user can
  configure, so both are integers.
\<close>

type_synonym ip = "8 word list"
type_synonym provider = string
type_synonym duration = int
type_synonym instant = int
type_synonym err = string

text \<open>
  \<open>settings.DNS\<close>: the fields that the looper reads or writes. The record is
  extensible, the remaining fields of the Go struct are never touched by this code.
\<close>

record DNS =
  Enabled :: bool
  Providers :: "provider list"
  PlaintextAddress :: "ip option"
  KeepNameserver :: bool
  UpdatePeriod :: duration
  VerbosityDetailsLevel :: nat

text \<open>
  \<open>constants.DNSProviderMapping()\<close> is a Go map from provider to provider data; the
  table itself is a parameter of the model. Indexing a Go map with an absent key gives
  the zero value, whose \<open>IPs\<close> slice is nil.
\<close>

type_synonym mapping = "provider \<Rightarrow> ip list option"

definition provider_IPs :: "mapping \<Rightarrow> provider \<Rightarrow> ip list" where
  "provider_IPs m p = (case m p of None \<Rightarrow> [] | Some ips \<Rightarrow> ips)"

text \<open>
  \<open>net.IP.To4\<close> of the Go standard library: a 4-byte slice is returned as it is, a
  16-byte slice with the IPv4-in-IPv6 prefix gives its last four bytes, anything else nil.
\<close>

definition To4 :: "ip \<Rightarrow> ip option" where
  "To4 a =
     (if length a = 4 then Some a
      else if length a = 16 \<and> list_all (\<lambda>b. b = 0) (take 10 a)
              \<and> a ! 10 = 0xff \<and> a ! 11 = 0xff
      then Some (drop 12 a)
      else None)"

text \<open>Log lines, by severity and content, and the calls the looper makes.\<close>

datatype logmsg =
    UsingPlaintext ip
  | FallingBack ip
  | NoIPv4Found "provider list"
  | Failure "err option"
  | AttemptRestart10s
  | NotStartedYet
  | NotRestartingDisabled
  | AlreadyDisabled
  | AlreadyStarted
  | Ready
  | Restarting
  | Stopping
  | ContextCanceled
  | LoopExited

datatype action =
    Info logmsg
  | Warn logmsg
  | Error logmsg
  | UseDNSInternally ip
  | UseDNSSystemWide ip bool
  | DownloadRootHints
  | DownloadRootKey
  | MakeUnboundConf
  | ConfStart nat nat
  | Started nat
  | Merge nat
  | WaitForUnbound
  | SpawnExitWait nat
  | Cancel nat
  | ConsumeExit nat
  | CloseExit nat
  | SignalDNSReady
  | NewTimer10s
  | WgDone

section \<open>Fallback selection: \<open>useUnencryptedDNS\<close>\<close>

text \<open>The inner loop over \<open>data.IPs\<close>: the first address whose \<open>To4\<close> is not nil.\<close>

fun first_ipv4 :: "ip list \<Rightarrow> ip option" where
  "first_ipv4 [] = None"
| "first_ipv4 (targetIP # rest) =
     (if To4 targetIP \<noteq> None then Some targetIP else first_ipv4 rest)"

text \<open>The outer loop over \<open>settings.Providers\<close>.\<close>

fun scan_providers :: "mapping \<Rightarrow> provider list \<Rightarrow> ip option" where
  "scan_providers m [] = None"
| "scan_providers m (p # ps) =
     (case first_ipv4 (provider_IPs m p) of
        Some targetIP \<Rightarrow> Some targetIP
      | None \<Rightarrow> scan_providers m ps)"

text \<open>The address that \<open>useUnencryptedDNS\<close> will hand to the configurator, if any.\<close>

definition dns_target :: "mapping \<Rightarrow> DNS \<Rightarrow> ip option" where
  "dns_target m settings =
     (case PlaintextAddress settings of
        Some targetIP \<Rightarrow> Some targetIP
      | None \<Rightarrow> scan_providers m (Providers settings))"

definition log_sys_error :: "err option \<Rightarrow> action list" where
  "log_sys_error r = (case r of None \<Rightarrow> [] | Some e \<Rightarrow> [Error (Failure (Some e))])"

text \<open>
  \<open>useUnencryptedDNS\<close> as the list of its effects. \<open>sys\<close> is what
  \<open>UseDNSSystemWide\<close> returns, should it be called.
\<close>

definition useUnencryptedDNS :: "mapping \<Rightarrow> DNS \<Rightarrow> bool \<Rightarrow> err option \<Rightarrow> action list" where
  "useUnencryptedDNS m settings fallback sys =
     (case PlaintextAddress settings of
        Some targetIP \<Rightarrow>
          [Info (if fallback then FallingBack targetIP else UsingPlaintext targetIP),
           UseDNSInternally targetIP,
           UseDNSSystemWide targetIP (KeepNameserver settings)] @ log_sys_error sys
      | None \<Rightarrow>
          (case scan_providers m (Providers settings) of
             Some targetIP \<Rightarrow>
               [Info (FallingBack targetIP),
                UseDNSInternally targetIP,
                UseDNSSystemWide targetIP (KeepNameserver settings)] @ log_sys_error sys
           | None \<Rightarrow> [Error (NoIPv4Found (Providers settings))]))"

text \<open>What the claim about the selection speaks of.\<close>

definition is_switch :: "action \<Rightarrow> bool" where
  "is_switch a = (case a of UseDNSInternally _ \<Rightarrow> True | UseDNSSystemWide _ _ \<Rightarrow> True | _ \<Rightarrow> False)"

definition all_IPs :: "mapping \<Rightarrow> provider list \<Rightarrow> ip list" where
  "all_IPs m ps = concat (map (provider_IPs m) ps)"

text \<open>
  Two providers for an example: the first has an IPv6 address only, the second an IPv6
  address followed by an IPv4 address.
\<close>

definition mappingAB :: mapping where
  "mappingAB =
     (\<lambda>p. if p = ''A'' then Some [[0x26, 0x20, 0, 0xfe, 0, 0, 0, 0, 0, 0, 0, 0, 0, 0, 0, 0xfe]]
          else if p = ''B'' then Some [[0x26, 0x06, 0x47, 0, 0x47, 0, 0, 0, 0, 0, 0, 0, 0, 0, 0x11, 0x11],
                                       [1, 1, 1, 1]]
          else None)"

definition settingsAB :: DNS where
  "settingsAB = \<lparr>Enabled = True, Providers = [''A'', ''B''], PlaintextAddress = None,
     KeepNameserver = True, UpdatePeriod = 0, VerbosityDetailsLevel = 1\<rparr>"

section \<open>Settings store: \<open>SetSettings\<close>\<close>

text \<open>
  The looper's settings behind its \<open>sync.RWMutex\<close>, seen from the goroutine that calls
  \<open>SetSettings\<close>. \<open>Unlock\<close> on a mutex that is not locked for writing is a fatal
  run-time error of the Go runtime.
\<close>

datatype status = Normal | WaitsForLock | Fatal

record store =
  settings :: DNS
  wlocked :: bool
  unlocks :: nat
  notified :: nat

definition Lock :: "store \<Rightarrow> status \<times> store" where
  "Lock s = (if wlocked s then (WaitsForLock, s) else (Normal, s\<lparr>wlocked := True\<rparr>))"

definition Unlock :: "store \<Rightarrow> status \<times> store" where
  "Unlock s =
     (if wlocked s then (Normal, s\<lparr>wlocked := False, unlocks := unlocks s + 1\<rparr>)
      else (Fatal, s))"

text \<open>
  \<open>SetSettings\<close>: lock, register the deferred unlock, compare, store, unlock, notify,
  and on return run the deferred unlock.
\<close>

definition SetSettings :: "DNS \<Rightarrow> store \<Rightarrow> status \<times> store" where
  "SetSettings new s =
     (case Lock s of
        (Normal, s1) \<Rightarrow>
          (let updatePeriodDiffers = (UpdatePeriod (settings s1) \<noteq> UpdatePeriod new);
               s2 = s1\<lparr>settings := new\<rparr>
           in case Unlock s2 of
                (Normal, s3) \<Rightarrow>
                  (let s4 = (if updatePeriodDiffers then s3\<lparr>notified := notified s3 + 1\<rparr> else s3)
                   in Unlock s4)
              | (st, s3) \<Rightarrow> (st, s3))
      | (st, s1) \<Rightarrow> (st, s1))"

definition settings0 :: DNS where
  "settings0 = \<lparr>Enabled = False, Providers = [''cloudflare''], PlaintextAddress = None,
     KeepNameserver = False, UpdatePeriod = 0, VerbosityDetailsLevel = 1\<rparr>"

definition store0 :: store where
  "store0 = \<lparr>settings = settings0, wlocked = False, unlocks = 0, notified = 0\<rparr>"

section \<open>Restart scheduler: \<open>RunRestartTicker\<close>\<close>

text \<open>
  The \<open>time.Timer\<close> of the Go runtime this code was written for: \<open>armed\<close> holds
  the deadline while the timer is active, \<open>chan_full\<close> says that a tick sits in the
  one-slot channel \<open>timer.C\<close>. \<open>Stop\<close> reports whether the call stopped an active
  timer; \<open>Reset\<close> with a duration that is not positive makes the timer due at once.
  The scheduler's own variables are \<open>timerIsStopped\<close> and \<open>lastTick\<close> (as
  \<open>UnixNano\<close>, 0 for \<open>time.Unix(0, 0)\<close>); \<open>period\<close> is the \<open>UpdatePeriod\<close>
  that \<open>GetSettings\<close> reads, \<open>pushed\<close> counts the sends on \<open>l.restart\<close> that
  were accepted.
\<close>

datatype sched_pc = Selecting | SendingRestart | BlockedOnTimerC | SchedReturned

record sched =
  period :: duration
  armed :: "instant option"
  chan_full :: bool
  timerIsStopped :: bool
  lastTick :: instant
  spc :: sched_pc
  pushed :: nat

definition timer_Stop :: "sched \<Rightarrow> bool \<times> sched" where
  "timer_Stop s = (armed s \<noteq> None, s\<lparr>armed := None\<rparr>)"

definition timer_Reset :: "instant \<Rightarrow> duration \<Rightarrow> sched \<Rightarrow> sched" where
  "timer_Reset now d s = s\<lparr>armed := Some (now + max d 0)\<rparr>"

text \<open>
  \<open><-timer.C\<close> on a timer that is not active: the tick in the channel is taken, and
  with an empty channel the receive never returns.
\<close>

definition recv_timer_C :: "sched \<Rightarrow> sched" where
  "recv_timer_C s = (if chan_full s then s\<lparr>chan_full := False\<rparr> else s\<lparr>spc := BlockedOnTimerC\<rparr>)"

definition hour :: duration where
  "hour = 3600 * 1000000000"

text \<open>Lines 301 to 309, up to the first \<open>select\<close>.\<close>

definition RunRestartTicker_start :: "instant \<Rightarrow> duration \<Rightarrow> sched" where
  "RunRestartTicker_start now p =
     (let s0 = \<lparr>period = p, armed = Some (now + hour), chan_full = False,
                 timerIsStopped = False, lastTick = 0, spc = Selecting, pushed = 0\<rparr>;
          s1 = (snd (timer_Stop s0))\<lparr>timerIsStopped := True\<rparr>
      in if period s1 > 0 then (timer_Reset now (period s1) s1)\<lparr>timerIsStopped := False\<rparr>
         else s1)"

text \<open>The \<open>updateTicker\<close> case, lines 322 to 338.\<close>

definition on_updateTicker :: "instant \<Rightarrow> sched \<Rightarrow> sched" where
  "on_updateTicker now s =
     (let (stopped, s1) = timer_Stop s;
          s2 = (if \<not> stopped then recv_timer_C s1 else s1)
      in if spc s2 = BlockedOnTimerC then s2
         else
           (let s3 = s2\<lparr>timerIsStopped := True\<rparr>;
                newUpdatePeriod = period s3
            in if newUpdatePeriod = 0 then s3
               else
                 (let waited = (if lastTick s3 \<noteq> 0 then now - lastTick s3 else 0);
                      leftToWait = newUpdatePeriod - waited
                  in (timer_Reset now leftToWait s3)\<lparr>timerIsStopped := False\<rparr>)))"

text \<open>The \<open>ctx.Done()\<close> case, lines 312 to 316.\<close>

definition on_ctx_Done :: "sched \<Rightarrow> sched" where
  "on_ctx_Done s =
     (if \<not> timerIsStopped s
      then (let (stopped, s1) = timer_Stop s;
                s2 = (if \<not> stopped then recv_timer_C s1 else s1)
            in if spc s2 = BlockedOnTimerC then s2 else s2\<lparr>spc := SchedReturned\<rparr>)
      else s\<lparr>spc := SchedReturned\<rparr>)"

text \<open>
  What happens around the scheduler: another goroutine stores settings with a new period,
  the runtime fires the timer, the \<open>select\<close> takes one of its three cases, the
  supervisor loop accepts the restart that the tick case is sending. The instants are the
  readings of the clock at that moment.
\<close>

datatype sched_event =
    TStored duration
  | TFires
  | TTick instant
  | TAccepted instant
  | TNotified instant
  | TDone

fun sched_step :: "sched \<Rightarrow> sched_event \<Rightarrow> sched" where
  "sched_step s (TStored p) = s\<lparr>period := p\<rparr>"
| "sched_step s TFires =
     (if armed s \<noteq> None then s\<lparr>armed := None, chan_full := True\<rparr> else s)"
| "sched_step s (TTick now) =
     (if spc s = Selecting \<and> chan_full s
      then s\<lparr>chan_full := False, lastTick := now, spc := SendingRestart\<rparr>
      else s)"
| "sched_step s (TAccepted now) =
     (if spc s = SendingRestart
      then (timer_Reset now (period s) s)\<lparr>pushed := pushed s + 1, spc := Selecting\<rparr>
      else s)"
| "sched_step s (TNotified now) =
     (if spc s = Selecting then on_updateTicker now s else s)"
| "sched_step s TDone =
     (if spc s = Selecting then on_ctx_Done s else s)"

definition RunRestartTicker :: "instant \<Rightarrow> duration \<Rightarrow> sched_event list \<Rightarrow> sched" where
  "RunRestartTicker now p evs = foldl sched_step (RunRestartTicker_start now p) evs"

section \<open>Supervisor loop: \<open>Run\<close>\<close>

text \<open>
  The loop is one goroutine. It is modelled as a machine that runs from one blocking
  operation to the next; an event is what ends the pending operation:
  \<^item> \<open>Cmd c\<close>: the \<open>select\<close> the loop waits in receives from the channel of \<open>c\<close>
    (the channels are unbuffered: a command is delivered only there);
  \<^item> \<open>CtxDone\<close>: the \<open>select\<close> receives from \<open>ctx.Done()\<close>;
  \<^item> \<open>CtxCancel\<close>: the context is cancelled while the loop is anywhere;
  \<^item> \<open>Ret r\<close>: the pending configurator call returns the error \<open>r\<close> (\<open>None\<close> is nil);
  \<^item> \<open>TimerFired\<close>: the 10 second timer of \<open>logAndWait\<close> fires;
  \<^item> \<open>Exited r\<close>: the \<open>select\<close> receives from \<open>waitError\<close>, the resolver has
    exited and \<open>waitFn\<close> has returned \<open>r\<close>.
  An event that the pending operation does not wait for leaves the state as it is.
  The settings are written by this goroutine alone: the runs contain no \<open>SetSettings\<close>
  of another goroutine.
\<close>

datatype command = Start | Stop | Restart

datatype event =
    Cmd command
  | CtxDone
  | CtxCancel
  | Ret "err option"
  | TimerFired
  | Exited "err option"

text \<open>
  The channel \<open>waitError\<close>: nil before the first \<open>make\<close>; \<open>Pending h\<close> once made, with
  the goroutine that sends the result of \<open>waitFn\<close> of resolver \<open>h\<close>; closed after
  \<open>close\<close>. Resolvers are numbered by the context created for them at line 194.
\<close>

datatype chan = NilChan | Pending nat | Closed

text \<open>
  Where the loop is blocked: the \<open>UseDNSSystemWide\<close> call of the first
  \<open>useUnencryptedDNS\<close>; the two waiting functions; the three setup calls;
  \<open>conf.Start\<close>; \<open>UseDNSSystemWide\<close> of line 207; \<open>WaitForUnbound\<close>; the inner
  \<open>select\<close>; the \<open>UseDNSSystemWide\<close> call of a fallback (holding the error to log
  afterwards); the timer of \<open>logAndWait\<close>. \<open>Returned\<close>: \<open>Run\<close> has returned.
  \<open>Deadlock\<close>: a receive that no goroutine will ever serve. \<open>Panic\<close>: a \<open>close\<close> of a
  nil or closed channel.
\<close>

datatype pc =
    InitSys
  | FirstStart
  | SubsequentStart
  | Hints
  | Key
  | Conf
  | Starting nat
  | SysDNS nat
  | Readiness nat
  | Active
  | FallbackSys "err option"
  | LogWait
  | Returned
  | Deadlock
  | Panic

record looper =
  l_settings :: DNS
  cur :: DNS
  ctx_done :: bool
  loc :: pc
  triggeredRestart :: bool
  unboundCancel :: "nat option"
  waitError :: chan
  contexts :: nat
  trace :: "action list"

definition emit :: "action list \<Rightarrow> looper \<Rightarrow> looper" where
  "emit as s = s\<lparr>trace := trace s @ as\<rparr>"

definition isEnabled :: "looper \<Rightarrow> bool" where
  "isEnabled s = Enabled (l_settings s)"

definition setEnabled :: "bool \<Rightarrow> looper \<Rightarrow> looper" where
  "setEnabled enabled s = s\<lparr>l_settings := (l_settings s)\<lparr>Enabled := enabled\<rparr>\<rparr>"

text \<open>\<open>unboundCancel()\<close>; the variable starts as a function that does nothing.\<close>

definition call_unboundCancel :: "looper \<Rightarrow> looper" where
  "call_unboundCancel s = (case unboundCancel s of None \<Rightarrow> s | Some h \<Rightarrow> emit [Cancel h] s)"

text \<open>
  \<open><-waitError\<close> followed by \<open>close(waitError)\<close>, after the resolver was cancelled: the
  resolver ends when its context is cancelled, \<open>waitFn\<close> returns and the pending
  goroutine delivers. A nil channel never delivers; a closed one delivers at once and the
  \<open>close\<close> panics.
\<close>

definition drain :: "looper \<Rightarrow> looper" where
  "drain s =
     (case waitError s of
        Pending h \<Rightarrow> emit [ConsumeExit h, CloseExit h] (s\<lparr>waitError := Closed\<rparr>)
      | NilChan \<Rightarrow> s\<lparr>loc := Deadlock\<rparr>
      | Closed \<Rightarrow> s\<lparr>loc := Panic\<rparr>)"

definition stuck :: "looper \<Rightarrow> bool" where
  "stuck s = (loc s = Deadlock \<or> loc s = Panic)"

text \<open>\<open>logAndWait\<close> up to its \<open>select\<close>.\<close>

definition logAndWait :: "err option \<Rightarrow> looper \<Rightarrow> looper" where
  "logAndWait e s =
     (emit [Warn (Failure e), Info AttemptRestart10s, NewTimer10s] s)\<lparr>loc := LogWait\<rparr>"

text \<open>
  \<open>useUnencryptedDNS(true)\<close> followed by \<open>logAndWait(ctx, err)\<close>, lines 198 to 200,
  212 to 214 and 251 to 253. When an address is found, the loop first waits for
  \<open>UseDNSSystemWide\<close> to return.
\<close>

definition fallback_then_wait :: "mapping \<Rightarrow> err option \<Rightarrow> looper \<Rightarrow> looper" where
  "fallback_then_wait m e s =
     (let s1 = emit (useUnencryptedDNS m (l_settings s) True None) s
      in case dns_target m (l_settings s) of
           None \<Rightarrow> logAndWait e s1
         | Some _ \<Rightarrow> s1\<lparr>loc := FallbackSys e\<rparr>)"

text \<open>Line 258 and the two deferred calls.\<close>

definition exit_loop :: "looper \<Rightarrow> looper" where
  "exit_loop s = (emit [Warn LoopExited, WgDone] (call_unboundCancel s))\<lparr>loc := Returned\<rparr>"

text \<open>Lines 172 to 175: the snapshot of the settings and the first setup call.\<close>

definition begin_setup :: "looper \<Rightarrow> looper" where
  "begin_setup s = (emit [DownloadRootHints] (s\<lparr>cur := l_settings s\<rparr>))\<lparr>loc := Hints\<rparr>"

text \<open>
  The head of the \<open>for\<close> loop, line 169, and the test that opens
  \<open>waitForSubsequentStart\<close>, line 130.
\<close>

definition loop_head :: "looper \<Rightarrow> looper" where
  "loop_head s =
     (if ctx_done s then exit_loop s
      else if isEnabled s then begin_setup s
      else s\<lparr>loc := SubsequentStart\<rparr>)"

text \<open>The \<open>select\<close> of \<open>waitForSubsequentStart\<close>; on return the setup begins.\<close>

fun waitForSubsequentStart :: "event \<Rightarrow> looper \<Rightarrow> looper" where
  "waitForSubsequentStart (Cmd Stop) s = emit [Info AlreadyDisabled] s"
| "waitForSubsequentStart (Cmd Restart) s =
     (if \<not> isEnabled s then emit [Info NotRestartingDisabled] s else begin_setup s)"
| "waitForSubsequentStart (Cmd Start) s = begin_setup (setEnabled True s)"
| "waitForSubsequentStart CtxDone s = begin_setup (call_unboundCancel (s\<lparr>ctx_done := True\<rparr>))"
| "waitForSubsequentStart _ s = s"

text \<open>Lines 159 to 169, after \<open>waitForFirstStart\<close> has returned.\<close>

definition after_first_start :: "looper \<Rightarrow> looper" where
  "after_first_start s =
     (if ctx_done s then (emit [WgDone] s)\<lparr>loc := Returned\<rparr>
      else loop_head (setEnabled True s))"

fun waitForFirstStart :: "event \<Rightarrow> looper \<Rightarrow> looper" where
  "waitForFirstStart (Cmd Stop) s = emit [Info NotStartedYet] (setEnabled False s)"
| "waitForFirstStart (Cmd Restart) s =
     (if isEnabled s then after_first_start s
      else emit [SignalDNSReady, Info NotRestartingDisabled] s)"
| "waitForFirstStart (Cmd Start) s = after_first_start (setEnabled True s)"
| "waitForFirstStart CtxDone s = after_first_start (s\<lparr>ctx_done := True\<rparr>)"
| "waitForFirstStart _ s = s"

text \<open>Lines 194 and 195: a new context, its cancel function, and the call of \<open>conf.Start\<close>.\<close>

definition launch :: "looper \<Rightarrow> looper" where
  "launch s =
     (let h = contexts s
      in (emit [ConfStart h (VerbosityDetailsLevel (cur s))]
            (s\<lparr>unboundCancel := Some h, contexts := Suc h\<rparr>))\<lparr>loc := Starting h\<rparr>)"

text \<open>Lines 188 to 195, once \<open>MakeUnboundConf\<close> has succeeded.\<close>

definition after_setup :: "looper \<Rightarrow> looper" where
  "after_setup s =
     (if triggeredRestart s
      then (let s1 = drain (call_unboundCancel (s\<lparr>triggeredRestart := False\<rparr>))
            in if stuck s1 then s1 else launch s1)
      else launch s)"

definition loopback :: ip where
  "loopback = [127, 0, 0, 1]"

text \<open>The inner \<open>select\<close>, lines 226 to 256.\<close>

fun active :: "mapping \<Rightarrow> event \<Rightarrow> looper \<Rightarrow> looper" where
  "active m CtxDone s =
     (let s1 = drain (call_unboundCancel (emit [Warn ContextCanceled] (s\<lparr>ctx_done := True\<rparr>)))
      in if stuck s1 then s1 else (emit [Warn LoopExited, WgDone] s1)\<lparr>loc := Returned\<rparr>)"
| "active m (Cmd Restart) s = loop_head ((emit [Info Restarting] s)\<lparr>triggeredRestart := True\<rparr>)"
| "active m (Cmd Start) s = emit [Info AlreadyStarted] s"
| "active m (Cmd Stop) s =
     (let s1 = drain (call_unboundCancel (emit [Info Stopping] s))
      in if stuck s1 then s1 else loop_head (setEnabled False s1))"
| "active m (Exited e) s =
     (case waitError s of
        Pending h \<Rightarrow>
          fallback_then_wait m e
            (call_unboundCancel (emit [ConsumeExit h, CloseExit h] (s\<lparr>waitError := Closed\<rparr>)))
      | NilChan \<Rightarrow> s
      | Closed \<Rightarrow> s\<lparr>loc := Panic\<rparr>)"
| "active m _ s = s"

text \<open>The result of a pending configurator call, and the timer of \<open>logAndWait\<close>.\<close>

fun returned :: "mapping \<Rightarrow> pc \<Rightarrow> err option \<Rightarrow> looper \<Rightarrow> looper" where
  "returned m InitSys r s = (emit (log_sys_error r) s)\<lparr>loc := FirstStart\<rparr>"
| "returned m Hints (Some e) s = logAndWait (Some e) s"
| "returned m Hints None s = (emit [DownloadRootKey] s)\<lparr>loc := Key\<rparr>"
| "returned m Key (Some e) s = logAndWait (Some e) s"
| "returned m Key None s = (emit [MakeUnboundConf] s)\<lparr>loc := Conf\<rparr>"
| "returned m Conf (Some e) s = logAndWait (Some e) s"
| "returned m Conf None s = after_setup s"
| "returned m (Starting h) (Some e) s = fallback_then_wait m (Some e) (call_unboundCancel s)"
| "returned m (Starting h) None s =
     (emit [Started h, Merge h, UseDNSInternally loopback,
            UseDNSSystemWide loopback (KeepNameserver (cur s))] s)\<lparr>loc := SysDNS h\<rparr>"
| "returned m (SysDNS h) r s = (emit (log_sys_error r @ [WaitForUnbound]) s)\<lparr>loc := Readiness h\<rparr>"
| "returned m (Readiness h) (Some e) s = fallback_then_wait m (Some e) (call_unboundCancel s)"
| "returned m (Readiness h) None s =
     (emit [SpawnExitWait h, Info Ready, SignalDNSReady] (s\<lparr>waitError := Pending h\<rparr>))\<lparr>loc := Active\<rparr>"
| "returned m (FallbackSys e) r s = logAndWait e (emit (log_sys_error r) s)"
| "returned m _ r s = s"

fun logAndWait_select :: "event \<Rightarrow> looper \<Rightarrow> looper" where
  "logAndWait_select TimerFired s = loop_head s"
| "logAndWait_select CtxDone s = loop_head (s\<lparr>ctx_done := True\<rparr>)"
| "logAndWait_select _ s = s"

text \<open>One event.\<close>

definition Run_step :: "mapping \<Rightarrow> looper \<Rightarrow> event \<Rightarrow> looper" where
  "Run_step m s ev =
     (if loc s = Returned \<or> stuck s then s
      else if ev = CtxCancel then s\<lparr>ctx_done := True\<rparr>
      else if loc s = FirstStart then waitForFirstStart ev s
      else if loc s = SubsequentStart then waitForSubsequentStart ev s
      else if loc s = Active then active m ev s
      else if loc s = LogWait then logAndWait_select ev s
      else (case ev of Ret r \<Rightarrow> returned m (loc s) r s | _ \<Rightarrow> s))"

text \<open>
  \<open>Run\<close> from its first statement, \<open>useUnencryptedDNS(false)\<close>, to the first blocking
  operation, and then along a list of events.
\<close>

definition Run_start :: "mapping \<Rightarrow> DNS \<Rightarrow> looper" where
  "Run_start m st =
     \<lparr>l_settings = st, cur = st, ctx_done = False,
      loc = (case dns_target m st of None \<Rightarrow> FirstStart | Some _ \<Rightarrow> InitSys),
      triggeredRestart = False, unboundCancel = None, waitError = NilChan, contexts = 0,
      trace = useUnencryptedDNS m st False None\<rparr>"

definition Run :: "mapping \<Rightarrow> DNS \<Rightarrow> event list \<Rightarrow> looper" where
  "Run m st evs = foldl (Run_step m) (Run_start m st) evs"

subsection \<open>Reading a trace\<close>

text \<open>
  The resolvers whose \<open>conf.Start\<close> has succeeded and whose context has not been
  cancelled since (\<open>running\<close>); those whose exit-wait goroutine was spawned and whose exit
  signal has not been received (\<open>unreaped\<close>); those whose exit signal was received
  (\<open>reaped\<close>). \<open>clean\<close> stays true as long as every call of \<open>conf.Start\<close> found no
  resolver running and none unreaped, every resolver started while no other was running,
  and every receive of an exit signal was that of an unreaped resolver.
\<close>

record tally =
  running :: "nat list"
  unreaped :: "nat list"
  reaped :: "nat list"
  clean :: bool

fun observe :: "tally \<Rightarrow> action \<Rightarrow> tally" where
  "observe t (ConfStart h v) = t\<lparr>clean := (clean t \<and> running t = [] \<and> unreaped t = [])\<rparr>"
| "observe t (Started h) = t\<lparr>running := h # running t, clean := (clean t \<and> running t = [])\<rparr>"
| "observe t (Cancel h) = t\<lparr>running := removeAll h (running t)\<rparr>"
| "observe t (SpawnExitWait h) = t\<lparr>unreaped := h # unreaped t\<rparr>"
| "observe t (ConsumeExit h) =
     t\<lparr>unreaped := removeAll h (unreaped t), reaped := h # reaped t,
       clean := (clean t \<and> h \<in> set (unreaped t))\<rparr>"
| "observe t _ = t"

definition tally0 :: tally where
  "tally0 = \<lparr>running = [], unreaped = [], reaped = [], clean = True\<rparr>"

definition tally_of :: "action list \<Rightarrow> tally" where
  "tally_of tr = foldl observe tally0 tr"

definition no_overlap :: "action list \<Rightarrow> bool" where
  "no_overlap tr = clean (tally_of tr)"

text \<open>\<open>a\<close> occurs in the trace and \<open>b\<close> occurs after it.\<close>

definition precedes :: "action \<Rightarrow> action \<Rightarrow> action list \<Rightarrow> bool" where
  "precedes a b tr = (b \<in> set (dropWhile (\<lambda>x. x \<noteq> a) tr))"

text \<open>
  The teardown that must be complete before a launch: \<open>torn_down uc un tr\<close> reads the
  trace \<open>tr\<close>, with \<open>uc\<close> the resolvers started and not cancelled since and \<open>un\<close> the
  resolvers started whose exit signal has not been received; it holds when every call of
  \<open>conf.Start\<close> finds both lists empty.
\<close>

fun torn_down :: "nat list \<Rightarrow> nat list \<Rightarrow> action list \<Rightarrow> bool" where
  "torn_down uc un [] = True"
| "torn_down uc un (ConfStart h v # tr) = (uc = [] \<and> un = [] \<and> torn_down uc un tr)"
| "torn_down uc un (Started h # tr) = torn_down (h # uc) (h # un) tr"
| "torn_down uc un (Cancel h # tr) = torn_down (removeAll h uc) un tr"
| "torn_down uc un (ConsumeExit h # tr) = torn_down uc (removeAll h un) tr"
| "torn_down uc un (a # tr) = torn_down uc un tr"

text \<open>
  Start, and the resolver never becomes ready: \<open>WaitForUnbound\<close> fails, the fallback is
  applied, the timer fires, and the three setup calls succeed again.
\<close>

definition not_ready_script :: "event list" where
  "not_ready_script =
     [Ret None, Cmd Start, Ret None, Ret None, Ret None, Ret None, Ret None,
      Ret (Some ''not ready''), Ret None, TimerFired, Ret None, Ret None, Ret None]"

subsection \<open>Failures\<close>

text \<open>
  The setup calls, whose failure goes straight to \<open>logAndWait\<close>, and the events that
  follow a failure with a resolver: the return of \<open>UseDNSSystemWide\<close>, when the fallback
  has an address to apply.
\<close>

fun setup_pc :: "pc \<Rightarrow> bool" where
  "setup_pc Hints = True"
| "setup_pc Key = True"
| "setup_pc Conf = True"
| "setup_pc _ = False"

definition fallback_return :: "mapping \<Rightarrow> looper \<Rightarrow> err option \<Rightarrow> event list" where
  "fallback_return m s r = (case dns_target m (l_settings s) of None \<Rightarrow> [] | Some _ \<Rightarrow> [Ret r])"

definition backoff :: "err option \<Rightarrow> action list" where
  "backoff e = [Warn (Failure e), Info AttemptRestart10s, NewTimer10s]"

subsection \<open>Invariant of the loop\<close>

text \<open>
  \<open>live\<close>: the cancel function and the exit channel belong to the one resolver that is
  running and unreaped. \<open>quiet\<close>: no resolver is running or unreaped. \<open>wanted\<close>: the loop is
  enabled, or cancelled and on its way out. \<open>fresh\<close>: the context made for the resolver
  being launched.
\<close>

definition live :: "looper \<Rightarrow> tally \<Rightarrow> bool" where
  "live s t =
     (case unboundCancel s of
        Some h \<Rightarrow> waitError s = Pending h \<and> running t = [h] \<and> unreaped t = [h]
                  \<and> h \<notin> set (reaped t)
      | None \<Rightarrow> False)"

definition quiet :: "tally \<Rightarrow> bool" where
  "quiet t = (running t = [] \<and> unreaped t = [])"

definition wanted :: "looper \<Rightarrow> bool" where
  "wanted s = (isEnabled s \<or> ctx_done s)"

definition fresh :: "looper \<Rightarrow> tally \<Rightarrow> nat \<Rightarrow> bool" where
  "fresh s t h = (unboundCancel s = Some h \<and> \<not> triggeredRestart s \<and> unreaped t = []
                  \<and> h \<notin> set (reaped t) \<and> h < contexts s)"

definition inv_at :: "looper \<Rightarrow> tally \<Rightarrow> bool" where
  "inv_at s t =
     (case loc s of
        InitSys \<Rightarrow> quiet t \<and> unboundCancel s = None \<and> \<not> triggeredRestart s
      | FirstStart \<Rightarrow> quiet t \<and> unboundCancel s = None \<and> \<not> triggeredRestart s
      | SubsequentStart \<Rightarrow> quiet t \<and> \<not> triggeredRestart s \<and> \<not> isEnabled s
      | Hints \<Rightarrow> wanted s \<and> (if triggeredRestart s then live s t else quiet t)
      | Key \<Rightarrow> wanted s \<and> (if triggeredRestart s then live s t else quiet t)
      | Conf \<Rightarrow> wanted s \<and> (if triggeredRestart s then live s t else quiet t)
      | LogWait \<Rightarrow> wanted s \<and> (if triggeredRestart s then live s t else quiet t)
      | Starting h \<Rightarrow> wanted s \<and> fresh s t h \<and> running t = []
      | SysDNS h \<Rightarrow> wanted s \<and> fresh s t h \<and> running t = [h]
      | Readiness h \<Rightarrow> wanted s \<and> fresh s t h \<and> running t = [h]
      | Active \<Rightarrow> wanted s \<and> \<not> triggeredRestart s \<and> live s t
      | FallbackSys e \<Rightarrow> wanted s \<and> \<not> triggeredRestart s \<and> quiet t
      | Returned \<Rightarrow> ctx_done s \<and> running t = []
      | Deadlock \<Rightarrow> False
      | Panic \<Rightarrow> False)"

definition loop_inv :: "looper \<Rightarrow> bool" where
  "loop_inv s =
     (clean (tally_of (trace s)) \<and> distinct (reaped (tally_of (trace s)))
      \<and> list_all (\<lambda>h. h < contexts s) (reaped (tally_of (trace s)))
      \<and> list_all (\<lambda>h. h < contexts s) (unreaped (tally_of (trace s)))
      \<and> inv_at s (tally_of (trace s)))"

text \<open>A provider table and settings for the examples.\<close>

definition mapping0 :: mapping where
  "mapping0 = (\<lambda>p. if p = ''cloudflare'' then Some [[1, 1, 1, 1], [1, 0, 0, 1]] else None)"

definition up_script :: "event list" where
  "up_script = [Ret None, Cmd Start, Ret None, Ret None, Ret None, Ret None, Ret None, Ret None]"

section \<open>NordVPN server list: \<open>findNordvpnServers\<close>\<close>

text \<open>
  One element of the decoded JSON array, and \<open>models.NordvpnServer\<close> with the fields
  that the function fills.
\<close>

record jsonServer =
  IPAddress :: string
  Name :: string
  Country :: string
  Features_UDP :: bool
  Features_TCP :: bool

record NordvpnServer =
  Region :: string
  Number :: "16 word"
  IP :: ip
  TCP :: bool
  UDP :: bool

datatype warning = NoTCPNorUDP string

datatype find_error =
    GetFailed err
  | HTTPStatus int
  | UnmarshalFailed err
  | NotIPv4 string string
  | NoID string
  | BadID string

text \<open>The comparison handed to \<open>sort.Slice\<close>; Go compares strings byte by byte.\<close>

definition less_server :: "jsonServer \<Rightarrow> jsonServer \<Rightarrow> bool" where
  "less_server a b = (if Country a = Country b then Name a < Name b else Country a < Country b)"

text \<open>
  \<open>strconv.ParseUint(s, 10, 16)\<close>: an error for the empty string, for any byte that is
  not a decimal digit, and for a value above 65535.
\<close>

definition digit :: "char \<Rightarrow> nat option" where
  "digit c = (if 48 \<le> (of_char c :: nat) \<and> (of_char c :: nat) \<le> 57 then Some (of_char c - 48) else None)"

fun digits_value :: "nat \<Rightarrow> string \<Rightarrow> nat option" where
  "digits_value n [] = Some n"
| "digits_value n (c # cs) =
     (case digit c of None \<Rightarrow> None | Some d \<Rightarrow> digits_value (10 * n + d) cs)"

definition ParseUint16 :: "string \<Rightarrow> nat option" where
  "ParseUint16 s =
     (if s = [] then None
      else case digits_value 0 s of
             None \<Rightarrow> None
           | Some n \<Rightarrow> if n > 65535 then None else Some n)"

text \<open>\<open>strings.IndexRune\<close> for an ASCII rune: the first index, or none (-1 in Go).\<close>

fun IndexRune :: "string \<Rightarrow> char \<Rightarrow> nat option" where
  "IndexRune [] c = None"
| "IndexRune (x # xs) c = (if x = c then Some 0 else map_option Suc (IndexRune xs c))"

definition supported :: "jsonServer \<Rightarrow> bool" where
  "supported j = (Features_TCP j \<or> Features_UDP j)"

text \<open>
  Lines 69 to 90, the body of the loop for a server that supports TCP or UDP.
  \<open>ParseIP\<close> is \<open>net.ParseIP\<close>, a parameter: it gives nil for a text that is no IP
  address.
\<close>

definition make_server :: "(string \<Rightarrow> ip option) \<Rightarrow> jsonServer \<Rightarrow> find_error + NordvpnServer" where
  "make_server ParseIP jsonServer =
     (case ParseIP (IPAddress jsonServer) of
        None \<Rightarrow> Inl (NotIPv4 (IPAddress jsonServer) (Name jsonServer))
      | Some a \<Rightarrow>
          if To4 a = None then Inl (NotIPv4 (IPAddress jsonServer) (Name jsonServer))
          else
            (case IndexRune (Name jsonServer) CHR ''#'' of
               None \<Rightarrow> Inl (NoID (Name jsonServer))
             | Some i \<Rightarrow>
                 (case ParseUint16 (drop (i + 1) (Name jsonServer)) of
                    None \<Rightarrow> Inl (BadID (Name jsonServer))
                  | Some idUint64 \<Rightarrow>
                      Inr \<lparr>Region = Country jsonServer, Number = of_nat idUint64, IP = a,
                           TCP = Features_TCP jsonServer, UDP = Features_UDP jsonServer\<rparr>)))"

text \<open>The loop of lines 64 to 92 with its two accumulators.\<close>

fun servers_loop ::
  "(string \<Rightarrow> ip option) \<Rightarrow> jsonServer list \<Rightarrow> NordvpnServer list \<Rightarrow> warning list
     \<Rightarrow> find_error + NordvpnServer list \<times> warning list" where
  "servers_loop ParseIP [] servers warnings = Inr (servers, warnings)"
| "servers_loop ParseIP (jsonServer # rest) servers warnings =
     (if \<not> Features_TCP jsonServer \<and> \<not> Features_UDP jsonServer
      then servers_loop ParseIP rest servers (warnings @ [NoTCPNorUDP (Name jsonServer)])
      else (case make_server ParseIP jsonServer of
              Inl e \<Rightarrow> Inl e
            | Inr server \<Rightarrow> servers_loop ParseIP rest (servers @ [server]) warnings))"

text \<open>
  \<open>findNordvpnServers\<close>. The result of \<open>client.Get\<close>, \<open>json.Unmarshal\<close> and
  \<open>sort.Slice\<close> are parameters. An error result carries no servers and no warnings.
\<close>

definition findNordvpnServers ::
  "((jsonServer \<Rightarrow> jsonServer \<Rightarrow> bool) \<Rightarrow> jsonServer list \<Rightarrow> jsonServer list)
     \<Rightarrow> (string \<Rightarrow> ip option) \<Rightarrow> (string \<Rightarrow> err + jsonServer list)
     \<Rightarrow> err + string \<times> int \<Rightarrow> find_error + NordvpnServer list \<times> warning list" where
  "findNordvpnServers sort_Slice ParseIP Unmarshal got =
     (case got of
        Inl e \<Rightarrow> Inl (GetFailed e)
      | Inr (bytes, status) \<Rightarrow>
          if status \<noteq> 200 then Inl (HTTPStatus status)
          else (case Unmarshal bytes of
                  Inl e \<Rightarrow> Inl (UnmarshalFailed e)
                | Inr data \<Rightarrow> servers_loop ParseIP (sort_Slice less_server data) [] []))"

subsection \<open>What the claim speaks of\<close>

text \<open>
  A valid IPv4 address and a parseable identifier, as the function tests them; the order
  by country and then by name; a server made from an element of the list.
\<close>

definition valid_ipv4 :: "(string \<Rightarrow> ip option) \<Rightarrow> jsonServer \<Rightarrow> bool" where
  "valid_ipv4 ParseIP j = (case ParseIP (IPAddress j) of None \<Rightarrow> False | Some a \<Rightarrow> To4 a \<noteq> None)"

definition valid_id :: "jsonServer \<Rightarrow> bool" where
  "valid_id j =
     (case IndexRune (Name j) CHR ''#'' of
        None \<Rightarrow> False
      | Some i \<Rightarrow> ParseUint16 (drop (i + 1) (Name j)) \<noteq> None)"

definition valid_server :: "(string \<Rightarrow> ip option) \<Rightarrow> jsonServer \<Rightarrow> bool" where
  "valid_server ParseIP j = (valid_ipv4 ParseIP j \<and> valid_id j)"

definition by_country_then_name :: "jsonServer \<Rightarrow> jsonServer \<Rightarrow> bool" where
  "by_country_then_name a b =
     (Country a < Country b \<or> (Country a = Country b \<and> Name a \<le> Name b))"

definition made_from :: "(string \<Rightarrow> ip option) \<Rightarrow> jsonServer \<Rightarrow> NordvpnServer \<Rightarrow> bool" where
  "made_from ParseIP j sv =
     (Region sv = Country j \<and> ParseIP (IPAddress j) = Some (IP sv)
      \<and> TCP sv = Features_TCP j \<and> UDP sv = Features_UDP j
      \<and> (case IndexRune (Name j) CHR ''#'' of
            None \<Rightarrow> False
          | Some i \<Rightarrow> ParseUint16 (drop (i + 1) (Name j)) = Some (unat (Number sv))))"

text \<open>A sort, a parser that knows three addresses and a decoded list for the example.\<close>

definition sort_Slice0 :: "(jsonServer \<Rightarrow> jsonServer \<Rightarrow> bool) \<Rightarrow> jsonServer list \<Rightarrow> jsonServer list" where
  "sort_Slice0 lt xs = sort_key (\<lambda>j. (Country j, Name j)) xs"

definition ParseIP0 :: "string \<Rightarrow> ip option" where
  "ParseIP0 s =
     (if s = ''1.2.3.4'' then Some [0, 0, 0, 0, 0, 0, 0, 0, 0, 0, 0xff, 0xff, 1, 2, 3, 4]
      else if s = ''5.6.7.8'' then Some [5, 6, 7, 8]
      else if s = ''::1'' then Some [0, 0, 0, 0, 0, 0, 0, 0, 0, 0, 0, 0, 0, 0, 0, 1]
      else None)"

definition data0 :: "jsonServer list" where
  "data0 =
     [\<lparr>IPAddress = ''5.6.7.8'', Name = ''Spain #12'', Country = ''Spain'',
        Features_UDP = True, Features_TCP = False\<rparr>,
      \<lparr>IPAddress = ''not an address'', Name = ''France'', Country = ''France'',
        Features_UDP = False, Features_TCP = False\<rparr>,
      \<lparr>IPAddress = ''1.2.3.4'', Name = ''France #7'', Country = ''France'',
        Features_UDP = True, Features_TCP = True\<rparr>]"

definition Unmarshal0 :: "string \<Rightarrow> err + jsonServer list" where
  "Unmarshal0 bytes = (if bytes = ''[]'' then Inr [] else Inr data0)"

section \<open>Results\<close>

lemma first_ipv4_char:
  "first_ipv4 xs = (case filter (\<lambda>a. To4 a \<noteq> None) xs of [] \<Rightarrow> None | a # _ \<Rightarrow> Some a)"
  by (induction xs) auto

lemma scan_providers_char:
  "scan_providers m ps =
     (case filter (\<lambda>a. To4 a \<noteq> None) (all_IPs m ps) of [] \<Rightarrow> None | a # _ \<Rightarrow> Some a)"
proof (induction ps)
  case Nil
  show ?case by (simp add: all_IPs_def)
next
  case (Cons p ps)
  then show ?case
    by (simp add: all_IPs_def first_ipv4_char split: list.splits)
qed

text \<open>
  C6. A plaintext address that is set is the one applied. Without it the target is the
  first address, in provider order and then in address order, whose \<open>To4\<close> is not nil;
  when there is none, nothing is switched and one error line is logged.
\<close>

theorem C6_fallback_selection:
  "useUnencryptedDNS m cfg fallback sys =
     (case PlaintextAddress cfg of
        Some a \<Rightarrow>
          [Info (if fallback then FallingBack a else UsingPlaintext a),
           UseDNSInternally a, UseDNSSystemWide a (KeepNameserver cfg)] @ log_sys_error sys
      | None \<Rightarrow>
          (case filter (\<lambda>a. To4 a \<noteq> None) (all_IPs m (Providers cfg)) of
             a # _ \<Rightarrow>
               [Info (FallingBack a),
                UseDNSInternally a, UseDNSSystemWide a (KeepNameserver cfg)] @ log_sys_error sys
           | [] \<Rightarrow> [Error (NoIPv4Found (Providers cfg))]))
   \<and> (if PlaintextAddress cfg = None
         \<and> filter (\<lambda>a. To4 a \<noteq> None) (all_IPs m (Providers cfg)) = []
       then filter is_switch (useUnencryptedDNS m cfg fallback sys) = []
       else True)"
  by (simp add: useUnencryptedDNS_def scan_providers_char is_switch_def
      split: option.splits list.splits)

theorem C6_witness:
  "useUnencryptedDNS mappingAB settingsAB True None =
     [Info (FallingBack [1, 1, 1, 1]), UseDNSInternally [1, 1, 1, 1],
      UseDNSSystemWide [1, 1, 1, 1] True]
   \<and> useUnencryptedDNS mappingAB (settingsAB\<lparr>Providers := [''A'']\<rparr>) True None =
       [Error (NoIPv4Found [''A''])]
   \<and> useUnencryptedDNS mappingAB (settingsAB\<lparr>PlaintextAddress := Some [9, 9, 9, 9]\<rparr>) True None =
       [Info (FallingBack [9, 9, 9, 9]), UseDNSInternally [9, 9, 9, 9],
        UseDNSSystemWide [9, 9, 9, 9] True]"
  using C6_fallback_selection [of mappingAB settingsAB True None]
    C6_fallback_selection [of mappingAB "settingsAB\<lparr>Providers := [''A'']\<rparr>" True None]
    C6_fallback_selection [of mappingAB "settingsAB\<lparr>PlaintextAddress := Some [9, 9, 9, 9]\<rparr>" True None]
  by (simp add: all_IPs_def provider_IPs_def mappingAB_def settingsAB_def To4_def
      log_sys_error_def)

text \<open>
  C4. \<open>SetSettings\<close> releases the write lock by its explicit \<open>Unlock\<close> and then
  runs the deferred \<open>Unlock\<close> on the mutex that is no longer held: the call ends in
  the fatal error of the runtime, whether or not the period differs.
\<close>

lemma SetSettings_fatal: "\<not> wlocked s \<Longrightarrow> fst (SetSettings new s) = Fatal"
  by (simp add: SetSettings_def Lock_def Unlock_def Let_def)

theorem C4_SetSettings_double_unlock:
  "fst (SetSettings settings0 store0) = Fatal
   \<and> notified (snd (SetSettings settings0 store0)) = 0
   \<and> unlocks (snd (SetSettings settings0 store0)) = 1
   \<and> fst (SetSettings (settings0\<lparr>UpdatePeriod := hour\<rparr>) store0) = Fatal
   \<and> notified (snd (SetSettings (settings0\<lparr>UpdatePeriod := hour\<rparr>) store0)) = 1
   \<and> settings (snd (SetSettings (settings0\<lparr>UpdatePeriod := hour\<rparr>) store0))
       = settings0\<lparr>UpdatePeriod := hour\<rparr>"
  by (simp add: SetSettings_def Lock_def Unlock_def Let_def store0_def settings0_def hour_def)

text \<open>
  C3. With the timer disarmed (initial period 0), a notification of a new period of one
  hour makes the scheduler call \<open>Stop\<close>, which reports false, and then receive from
  the empty \<open>timer.C\<close>: it blocks there and never rearms.
\<close>

theorem C3_notification_blocks_when_disarmed:
  "spc (RunRestartTicker 0 0 [TStored hour, TNotified 5]) = BlockedOnTimerC
   \<and> armed (RunRestartTicker 0 0 [TStored hour, TNotified 5]) = None
   \<and> timerIsStopped (RunRestartTicker 0 0 []) \<and> spc (RunRestartTicker 0 0 []) = Selecting"
  by (simp add: RunRestartTicker_def RunRestartTicker_start_def on_updateTicker_def
      timer_Stop_def timer_Reset_def recv_timer_C_def Let_def hour_def)

text \<open>
  When the timer is active, or has fired without its tick being taken, the notification
  is handled as intended.
\<close>

lemma reschedule_when_not_disarmed:
  "spc s = Selecting \<Longrightarrow> armed s \<noteq> None \<or> chan_full s \<Longrightarrow>
   sched_step s (TNotified now) =
     (if period s = 0
      then s\<lparr>armed := None, chan_full := (chan_full s \<and> armed s \<noteq> None), timerIsStopped := True\<rparr>
      else s\<lparr>armed := Some (now + max (period s - (if lastTick s \<noteq> 0 then now - lastTick s else 0)) 0),
             chan_full := (chan_full s \<and> armed s \<noteq> None), timerIsStopped := False\<rparr>)"
  by (cases s) (auto simp: on_updateTicker_def timer_Stop_def timer_Reset_def recv_timer_C_def Let_def)

text \<open>
  C5. The period is one hour at startup; the timer fires, and while the tick case waits
  for its restart to be accepted the stored period becomes 0. The tick case then resets
  the timer with that period: it is due at once, fires again, and a second restart is
  pushed although the period is 0.
\<close>

theorem C5_tick_rearms_with_period_zero:
  "armed (RunRestartTicker 0 hour [TFires, TTick hour, TStored 0, TAccepted (hour + 1)])
     = Some (hour + 1)
   \<and> period (RunRestartTicker 0 hour [TFires, TTick hour, TStored 0, TAccepted (hour + 1)]) = 0
   \<and> pushed (RunRestartTicker 0 hour
        [TFires, TTick hour, TStored 0, TAccepted (hour + 1),
         TFires, TTick (hour + 1), TAccepted (hour + 2)]) = 2
   \<and> armed (RunRestartTicker 0 0 []) = None"
  by (simp add: RunRestartTicker_def RunRestartTicker_start_def
      timer_Stop_def timer_Reset_def Let_def hour_def)

subsection \<open>The supervisor loop\<close>

lemma tally_of_append: "tally_of (tr @ as) = foldl observe (tally_of tr) as"
  by (simp add: tally_of_def)

lemma observe_useUnencryptedDNS [simp]:
  "foldl observe t (useUnencryptedDNS m st fb r) = t"
  by (simp add: useUnencryptedDNS_def log_sys_error_def split: option.splits)

lemma observe_log_sys_error [simp]: "foldl observe t (log_sys_error r) = t"
  by (simp add: log_sys_error_def split: option.splits)

lemmas inv_defs = loop_inv_def inv_at_def live_def quiet_def wanted_def fresh_def tally_of_append
  Let_def list_all_iff


lemmas loop_defs = emit_def isEnabled_def setEnabled_def call_unboundCancel_def drain_def
  stuck_def logAndWait_def fallback_then_wait_def exit_loop_def begin_setup_def loop_head_def
  after_first_start_def launch_def

lemma inv_start: "loop_inv (Run_start m st)"
  by (simp add: Run_start_def inv_defs tally_of_def tally0_def split: option.splits)

lemma inv_first: "loop_inv s \<Longrightarrow> loc s = FirstStart \<Longrightarrow> loop_inv (waitForFirstStart ev s)"
  apply (cases ev)
  subgoal for c by (cases c) (simp_all add: inv_defs loop_defs split: option.splits)
  by (simp_all add: inv_defs loop_defs split: option.splits)

lemma inv_subsequent: "loop_inv s \<Longrightarrow> loc s = SubsequentStart \<Longrightarrow> loop_inv (waitForSubsequentStart ev s)"
  apply (cases ev)
  subgoal for c by (cases c) (simp_all add: inv_defs loop_defs split: option.splits)
  by (simp_all add: inv_defs loop_defs split: option.splits)

lemma inv_logwait: "loop_inv s \<Longrightarrow> loc s = LogWait \<Longrightarrow> loop_inv (logAndWait_select ev s)"
  apply (cases ev)
  by (simp_all add: inv_defs loop_defs split: option.splits if_splits) blast+

lemma inv_active: "loop_inv s \<Longrightarrow> loc s = Active \<Longrightarrow> loop_inv (active m ev s)"
  apply (cases ev)
  subgoal for c by (cases c) (simp_all add: inv_defs loop_defs split: option.splits if_splits, blast+)
  by (simp_all add: inv_defs loop_defs split: option.splits if_splits)

lemma inv_after_setup: "loop_inv s \<Longrightarrow> loc s = Conf \<Longrightarrow> loop_inv (after_setup s)"
proof (cases "triggeredRestart s")
  case True
  assume "loop_inv s" "loc s = Conf"
  with True obtain h where h: "unboundCancel s = Some h" "waitError s = Pending h"
    by (auto simp: inv_defs split: option.splits)
  from \<open>loop_inv s\<close> \<open>loc s = Conf\<close> True h show ?thesis
    by (simp add: after_setup_def inv_defs loop_defs) (auto simp: less_Suc_eq)
next
  case False
  assume "loop_inv s" "loc s = Conf"
  with False show ?thesis
    by (simp add: after_setup_def inv_defs loop_defs) (auto simp: less_Suc_eq)
qed

lemma inv_returned: "loop_inv s \<Longrightarrow> loc s = p \<Longrightarrow> loop_inv (returned m p r s)"
  apply (cases p; cases r)
  apply (simp_all add: inv_after_setup)
  apply (simp_all add: inv_defs loop_defs split: option.splits if_splits)
  done

lemma inv_cancel: "loop_inv s \<Longrightarrow> loop_inv (s\<lparr>ctx_done := True\<rparr>)"
  by (cases "loc s") (simp_all add: inv_defs isEnabled_def split: option.splits if_splits)

lemma inv_step: "loop_inv s \<Longrightarrow> loop_inv (Run_step m s ev)"
  by (simp add: Run_step_def inv_first inv_subsequent inv_logwait inv_active inv_returned
      inv_cancel split: event.splits)

lemma inv_foldl: "loop_inv s \<Longrightarrow> loop_inv (foldl (Run_step m) s evs)"
  by (induction evs arbitrary: s) (simp_all add: inv_step)

lemma inv_Run: "loop_inv (Run m st evs)"
  by (simp add: Run_def inv_foldl inv_start)

lemma Run_snoc: "Run m st (evs @ [ev]) = Run_step m (Run m st evs) ev"
  by (simp add: Run_def)

lemma reaped_foldl:
  "count_list (reaped (foldl observe t tr)) h = count_list tr (ConsumeExit h) + count_list (reaped t) h"
proof (induction tr arbitrary: t)
  case Nil
  show ?case by simp
next
  case (Cons a tr)
  show ?case by (cases a) (simp_all add: Cons.IH)
qed

lemma count_ConsumeExit: "count_list tr (ConsumeExit h) = count_list (reaped (tally_of tr)) h"
  by (simp add: tally_of_def reaped_foldl tally0_def)

lemma clean_observe: "clean (observe t a) \<Longrightarrow> clean t"
  by (cases a) simp_all

lemma clean_foldl: "clean (foldl observe t tr) \<Longrightarrow> clean t"
proof (induction tr arbitrary: t)
  case Nil
  then show ?case by simp
next
  case (Cons a tr)
  from Cons.prems have "clean (foldl observe (observe t a) tr)" by simp
  then have "clean (observe t a)" by (rule Cons.IH)
  then show ?case by (rule clean_observe)
qed

lemma clean_prefix: "clean (tally_of (tr @ as)) \<Longrightarrow> clean (tally_of tr)"
  by (simp add: tally_of_append clean_foldl)

lemma at_most_one_running: "clean (tally_of tr) \<Longrightarrow> length (running (tally_of tr)) \<le> 1"
proof (induction tr rule: rev_induct)
  case Nil
  show ?case by (simp add: tally_of_def tally0_def)
next
  case (snoc a tr)
  from snoc.prems have c: "clean (tally_of tr)" by (rule clean_prefix)
  have le: "length (removeAll h (running (tally_of tr))) \<le> 1" for h
    using snoc.IH [OF c] length_removeAll_less_eq [of h "running (tally_of tr)"] by linarith
  from snoc.IH [OF c] snoc.prems le show ?case
    by (cases a) (simp_all add: tally_of_append)
qed

lemma useUnencryptedDNS_split:
  "dns_target m st \<noteq> None \<Longrightarrow>
   useUnencryptedDNS m st fb None @ log_sys_error r = useUnencryptedDNS m st fb r"
  by (auto simp: dns_target_def useUnencryptedDNS_def log_sys_error_def split: option.splits)

lemma useUnencryptedDNS_no_target:
  "dns_target m st = None \<Longrightarrow> useUnencryptedDNS m st fb r = useUnencryptedDNS m st fb None"
  by (auto simp: dns_target_def useUnencryptedDNS_def split: option.splits)

lemma restart_teardown:
  assumes "loop_inv s" "loc s = Conf" "triggeredRestart s"
  shows "\<exists>h. unboundCancel s = Some h \<and> running (tally_of (trace s)) = [h]
           \<and> trace (Run_step m s (Ret None)) =
               trace s @ [Cancel h, ConsumeExit h, CloseExit h,
                          ConfStart (contexts s) (VerbosityDetailsLevel (cur s))]
           \<and> count_list (trace (Run_step m s (Ret None))) (ConsumeExit h) = 1"
proof -
  from assms obtain h where h: "unboundCancel s = Some h" "waitError s = Pending h"
    "running (tally_of (trace s)) = [h]" "h \<notin> set (reaped (tally_of (trace s)))"
    by (auto simp: inv_defs split: option.splits)
  from h(4) have "count_list (trace s) (ConsumeExit h) = 0"
    by (simp add: count_ConsumeExit)
  with assms h show ?thesis
    by (simp add: Run_step_def after_setup_def loop_defs Let_def)
qed

text \<open>
  What the loop does keep: \<open>conf.Start\<close> is only called when no resolver is uncancelled
  and no spawned exit-wait goroutine is undelivered, and never is more than one resolver
  uncancelled. When a restart is pending and \<open>MakeUnboundConf\<close> succeeds, the resolver
  \<open>h\<close> that is still running is cancelled, its exit signal is received (once in the whole
  trace) and the channel closed, and only then is \<open>conf.Start\<close> called.
\<close>

lemma launch_after_reaping:
  "no_overlap (trace (Run m st evs))
   \<and> (\<forall>n. length (running (tally_of (take n (trace (Run m st evs))))) \<le> 1)
   \<and> (loc (Run m st evs) = Conf \<and> triggeredRestart (Run m st evs) \<longrightarrow>
        (\<exists>h. unboundCancel (Run m st evs) = Some h
           \<and> running (tally_of (trace (Run m st evs))) = [h]
           \<and> trace (Run m st (evs @ [Ret None])) =
               trace (Run m st evs) @ [Cancel h, ConsumeExit h, CloseExit h,
                 ConfStart (contexts (Run m st evs)) (VerbosityDetailsLevel (cur (Run m st evs)))]
           \<and> count_list (trace (Run m st (evs @ [Ret None]))) (ConsumeExit h) = 1))"
proof (intro conjI allI impI)
  have i: "loop_inv (Run m st evs)" by (rule inv_Run)
  then show c: "no_overlap (trace (Run m st evs))"
    by (simp add: loop_inv_def no_overlap_def)
  show "length (running (tally_of (take n (trace (Run m st evs))))) \<le> 1" for n
  proof -
    from c have "clean (tally_of (take n (trace (Run m st evs)) @ drop n (trace (Run m st evs))))"
      by (simp add: no_overlap_def)
    then have "clean (tally_of (take n (trace (Run m st evs))))" by (rule clean_prefix)
    then show ?thesis by (rule at_most_one_running)
  qed
  assume "loc (Run m st evs) = Conf \<and> triggeredRestart (Run m st evs)"
  with i show "\<exists>h. unboundCancel (Run m st evs) = Some h
           \<and> running (tally_of (trace (Run m st evs))) = [h]
           \<and> trace (Run m st (evs @ [Ret None])) =
               trace (Run m st evs) @ [Cancel h, ConsumeExit h, CloseExit h,
                 ConfStart (contexts (Run m st evs)) (VerbosityDetailsLevel (cur (Run m st evs)))]
           \<and> count_list (trace (Run m st (evs @ [Ret None]))) (ConsumeExit h) = 1"
    using restart_teardown [of "Run m st evs" m] by (simp add: Run_snoc)
qed

text \<open>
  C1. The resolver is started and its readiness wait fails. Lines 211 to 215 cancel its
  context and never call \<open>waitFn\<close>: no exit signal of resolver 0 is ever received. After
  the backoff and a new setup, \<open>conf.Start\<close> is called for resolver 1. The teardown of
  resolver 0 is not complete at that launch.
\<close>

theorem C1_relaunch_after_readiness_failure:
  "drop 6 (trace (Run mapping0 settings0 not_ready_script)) =
     [ConfStart 0 1, Started 0, Merge 0, UseDNSInternally [127, 0, 0, 1],
      UseDNSSystemWide [127, 0, 0, 1] False, WaitForUnbound, Cancel 0,
      Info (FallingBack [1, 1, 1, 1]), UseDNSInternally [1, 1, 1, 1],
      UseDNSSystemWide [1, 1, 1, 1] False, Warn (Failure (Some ''not ready'')),
      Info AttemptRestart10s, NewTimer10s, DownloadRootHints, DownloadRootKey,
      MakeUnboundConf, ConfStart 1 1]
   \<and> count_list (trace (Run mapping0 settings0 not_ready_script)) (ConsumeExit 0) = 0
   \<and> \<not> torn_down [] [] (trace (Run mapping0 settings0 not_ready_script))
   \<and> torn_down [] []
        (trace (Run mapping0 settings0
           (up_script @ [Cmd Restart, Ret None, Ret None, Ret None, Ret None])))"
  by code_simp

lemma Run_append: "Run m st (evs @ evs') = foldl (Run_step m) (Run m st evs) evs'"
  by (simp add: Run_def)

lemma cancel_active:
  assumes "loop_inv s" "loc s = Active"
  shows "loc (Run_step m s CtxDone) = Returned
    \<and> (\<exists>h. unboundCancel s = Some h \<and> waitError s = Pending h
          \<and> running (tally_of (trace s)) = [h] \<and> unreaped (tally_of (trace s)) = [h]
          \<and> trace (Run_step m s CtxDone) =
               trace s @ [Warn ContextCanceled, Cancel h, ConsumeExit h, CloseExit h,
                          Warn LoopExited, WgDone]
          \<and> count_list (trace (Run_step m s CtxDone)) (ConsumeExit h) = 1)
    \<and> running (tally_of (trace (Run_step m s CtxDone))) = []
    \<and> unreaped (tally_of (trace (Run_step m s CtxDone))) = []"
proof -
  from assms obtain h where h: "unboundCancel s = Some h" "waitError s = Pending h"
    "running (tally_of (trace s)) = [h]" "unreaped (tally_of (trace s)) = [h]"
    "h \<notin> set (reaped (tally_of (trace s)))"
    by (auto simp: inv_defs split: option.splits)
  from h(5) have "count_list (trace s) (ConsumeExit h) = 0"
    by (simp add: count_ConsumeExit)
  with assms h show ?thesis
    by (simp add: Run_step_def loop_defs Let_def tally_of_append)
qed

text \<open>
  When the inner \<open>select\<close> takes the cancellation case, the loop cancels the running
  resolver \<open>h\<close>, receives its exit signal, which was pending (so the receive returns) and
  is received once in the whole trace, closes the channel and returns; no resolver is left
  uncancelled and no exit-wait goroutine is left with an undelivered signal.
\<close>

lemma cancellation_case_drains:
  "loc (Run m st evs) = Active \<longrightarrow>
     loc (Run m st (evs @ [CtxDone])) = Returned
     \<and> (\<exists>h. unboundCancel (Run m st evs) = Some h \<and> waitError (Run m st evs) = Pending h
          \<and> running (tally_of (trace (Run m st evs))) = [h]
          \<and> unreaped (tally_of (trace (Run m st evs))) = [h]
          \<and> trace (Run m st (evs @ [CtxDone])) =
               trace (Run m st evs) @ [Warn ContextCanceled, Cancel h, ConsumeExit h, CloseExit h,
                          Warn LoopExited, WgDone]
          \<and> count_list (trace (Run m st (evs @ [CtxDone]))) (ConsumeExit h) = 1)
     \<and> running (tally_of (trace (Run m st (evs @ [CtxDone])))) = []
     \<and> unreaped (tally_of (trace (Run m st (evs @ [CtxDone])))) = []
     \<and> no_overlap (trace (Run m st (evs @ [CtxDone])))"
proof
  assume a: "loc (Run m st evs) = Active"
  have "loop_inv (Run m st (evs @ [CtxDone]))" by (rule inv_Run)
  then have "no_overlap (trace (Run m st (evs @ [CtxDone])))"
    by (simp add: loop_inv_def no_overlap_def)
  with cancel_active [OF inv_Run a, of m]
  show "loc (Run m st (evs @ [CtxDone])) = Returned
     \<and> (\<exists>h. unboundCancel (Run m st evs) = Some h \<and> waitError (Run m st evs) = Pending h
          \<and> running (tally_of (trace (Run m st evs))) = [h]
          \<and> unreaped (tally_of (trace (Run m st evs))) = [h]
          \<and> trace (Run m st (evs @ [CtxDone])) =
               trace (Run m st evs) @ [Warn ContextCanceled, Cancel h, ConsumeExit h, CloseExit h,
                          Warn LoopExited, WgDone]
          \<and> count_list (trace (Run m st (evs @ [CtxDone]))) (ConsumeExit h) = 1)
     \<and> running (tally_of (trace (Run m st (evs @ [CtxDone])))) = []
     \<and> unreaped (tally_of (trace (Run m st (evs @ [CtxDone])))) = []
     \<and> no_overlap (trace (Run m st (evs @ [CtxDone])))"
    by (simp add: Run_snoc)
qed

text \<open>
  C7. The loop is in the inner \<open>select\<close> when the context is cancelled, and a
  \<open>Restart\<close> is ready as well. The \<open>select\<close> takes the \<open>Restart\<close> (lines 234 to 238),
  the test of line 169 fails, and line 258 cancels the resolver and \<open>Run\<close> returns. The
  exit signal of resolver 0 is never received: \<open>waitError\<close> still has its pending sender,
  the exit-wait goroutine stays blocked.
\<close>

theorem C7_restart_taken_when_cancelled:
  "loc (Run mapping0 settings0 up_script) = Active
   \<and> loc (Run mapping0 settings0 (up_script @ [CtxCancel])) = Active
   \<and> ctx_done (Run mapping0 settings0 (up_script @ [CtxCancel]))
   \<and> loc (Run mapping0 settings0 (up_script @ [CtxCancel, Cmd Restart])) = Returned
   \<and> trace (Run mapping0 settings0 (up_script @ [CtxCancel, Cmd Restart])) =
       trace (Run mapping0 settings0 up_script)
         @ [Info Restarting, Cancel 0, Warn LoopExited, WgDone]
   \<and> count_list (trace (Run mapping0 settings0 (up_script @ [CtxCancel, Cmd Restart])))
         (ConsumeExit 0) = 0
   \<and> waitError (Run mapping0 settings0 (up_script @ [CtxCancel, Cmd Restart])) = Pending 0
   \<and> unreaped (tally_of (trace (Run mapping0 settings0 (up_script @ [CtxCancel, Cmd Restart])))) = [0]"
  by code_simp

lemma stop_delivered:
  assumes "loop_inv s" "loc s = FirstStart \<or> loc s = SubsequentStart \<or> loc s = Active"
  shows "\<not> Enabled (l_settings (Run_step m s (Cmd Stop)))
    \<and> running (tally_of (trace (Run_step m s (Cmd Stop)))) = []
    \<and> unreaped (tally_of (trace (Run_step m s (Cmd Stop)))) = []
    \<and> (loc s = Active \<longrightarrow>
         (\<exists>h. running (tally_of (trace s)) = [h]
            \<and> trace (Run_step m s (Cmd Stop)) =
                 trace s @ [Info Stopping, Cancel h, ConsumeExit h, CloseExit h]
                   @ (if ctx_done s then [Cancel h, Warn LoopExited, WgDone] else [])))"
proof -
  from assms(2) consider "loc s = FirstStart" | "loc s = SubsequentStart" | "loc s = Active"
    by blast
  then show ?thesis
  proof cases
    case 1
    with assms(1) show ?thesis
      by (simp add: Run_step_def inv_defs loop_defs)
  next
    case 2
    with assms(1) show ?thesis
      by (simp add: Run_step_def inv_defs loop_defs)
  next
    case 3
    with assms(1) obtain h where h: "unboundCancel s = Some h" "waitError s = Pending h"
      "running (tally_of (trace s)) = [h]" "unreaped (tally_of (trace s)) = [h]"
      by (auto simp: inv_defs split: option.splits)
    with 3 show ?thesis
      by (simp add: Run_step_def loop_defs Let_def tally_of_append)
  qed
qed

text \<open>
  C9. Whenever a \<open>Stop\<close> is delivered, that is in one of the three \<open>select\<close>
  statements, the settings are disabled afterwards and no resolver is running or unreaped;
  a resolver that was running has been cancelled and its exit signal received.
\<close>

theorem C9_stop_leaves_disabled_and_inactive:
  "loc (Run m st evs) = FirstStart \<or> loc (Run m st evs) = SubsequentStart
     \<or> loc (Run m st evs) = Active \<longrightarrow>
   \<not> Enabled (l_settings (Run m st (evs @ [Cmd Stop])))
   \<and> running (tally_of (trace (Run m st (evs @ [Cmd Stop])))) = []
   \<and> unreaped (tally_of (trace (Run m st (evs @ [Cmd Stop])))) = []
   \<and> (loc (Run m st evs) = Active \<longrightarrow>
        (\<exists>h. running (tally_of (trace (Run m st evs))) = [h]
           \<and> trace (Run m st (evs @ [Cmd Stop])) =
                trace (Run m st evs) @ [Info Stopping, Cancel h, ConsumeExit h, CloseExit h]
                  @ (if ctx_done (Run m st evs) then [Cancel h, Warn LoopExited, WgDone] else [])))"
  using stop_delivered [OF inv_Run, of m st evs m] by (simp add: Run_snoc)

theorem C9_witness:
  "loc (Run mapping0 settings0 (up_script @ [Cmd Restart, Cmd Start])) = Hints
   \<and> loc (Run mapping0 settings0 up_script) = Active
   \<and> \<not> Enabled (l_settings (Run mapping0 settings0 (up_script @ [Cmd Stop])))
   \<and> running (tally_of (trace (Run mapping0 settings0 (up_script @ [Cmd Stop])))) = []
   \<and> unreaped (tally_of (trace (Run mapping0 settings0 (up_script @ [Cmd Stop])))) = []
   \<and> loc (Run mapping0 settings0 (up_script @ [Cmd Stop])) = SubsequentStart
   \<and> \<not> Enabled (l_settings (Run mapping0 settings0 ((up_script @ [Cmd Stop, Cmd Restart]) @ [Cmd Stop])))
   \<and> \<not> Enabled (l_settings (Run mapping0 (settings0\<lparr>Enabled := True\<rparr>) ([Ret None] @ [Cmd Stop])))"
proof -
  have h1: "loc (Run mapping0 settings0 up_script) = Active" by code_simp
  have h2: "loc (Run mapping0 settings0 (up_script @ [Cmd Stop, Cmd Restart])) = SubsequentStart"
    by code_simp
  have h3: "loc (Run mapping0 (settings0\<lparr>Enabled := True\<rparr>) [Ret None]) = FirstStart"
    by code_simp
  have h4: "loc (Run mapping0 settings0 (up_script @ [Cmd Restart, Cmd Start])) = Hints
    \<and> loc (Run mapping0 settings0 (up_script @ [Cmd Stop])) = SubsequentStart"
    by code_simp
  from C9_stop_leaves_disabled_and_inactive [of mapping0 settings0 up_script]
    C9_stop_leaves_disabled_and_inactive [of mapping0 settings0 "up_script @ [Cmd Stop, Cmd Restart]"]
    C9_stop_leaves_disabled_and_inactive [of mapping0 "settings0\<lparr>Enabled := True\<rparr>" "[Ret None]"]
    h1 h2 h3 h4
  show ?thesis by simp
qed

text \<open>
  C2. Start, then \<open>Stop\<close>: the loop waits in \<open>waitForSubsequentStart\<close>, disabled. A
  \<open>Restart\<close> there only logs; the readiness callback is not invoked. Before the first
  start the same command does invoke it.
\<close>

theorem C2_restart_while_disabled_after_stop:
  "loc (Run mapping0 settings0 (up_script @ [Cmd Stop])) = SubsequentStart
   \<and> \<not> isEnabled (Run mapping0 settings0 (up_script @ [Cmd Stop]))
   \<and> trace (Run mapping0 settings0 (up_script @ [Cmd Stop, Cmd Restart])) =
       trace (Run mapping0 settings0 (up_script @ [Cmd Stop])) @ [Info NotRestartingDisabled]
   \<and> loc (Run mapping0 settings0 (up_script @ [Cmd Stop, Cmd Restart])) = SubsequentStart
   \<and> \<not> isEnabled (Run mapping0 settings0 (up_script @ [Cmd Stop, Cmd Restart]))
   \<and> loc (Run mapping0 settings0 [Ret None]) = FirstStart
   \<and> trace (Run mapping0 settings0 [Ret None, Cmd Restart]) =
       trace (Run mapping0 settings0 [Ret None]) @ [SignalDNSReady, Info NotRestartingDisabled]"
  by code_simp

lemma setup_failure:
  assumes "setup_pc (loc s)"
  shows "loc (foldl (Run_step m) s [Ret (Some e)]) = LogWait
    \<and> trace (foldl (Run_step m) s [Ret (Some e)]) = trace s @ backoff (Some e)"
  using assms by (cases "loc s") (simp_all add: Run_step_def loop_defs backoff_def)

lemma fallback_steps:
  assumes "loc s \<noteq> Returned" "\<not> stuck s"
  shows "loc (foldl (Run_step m) (fallback_then_wait m e s) (fallback_return m s r)) = LogWait
    \<and> trace (foldl (Run_step m) (fallback_then_wait m e s) (fallback_return m s r)) =
        trace s @ useUnencryptedDNS m (l_settings s) True r @ backoff e"
proof (cases "dns_target m (l_settings s)")
  case None
  then show ?thesis
    by (simp add: fallback_then_wait_def fallback_return_def loop_defs backoff_def
        useUnencryptedDNS_no_target [of m "l_settings s" True r])
next
  case (Some a)
  then have "useUnencryptedDNS m (l_settings s) True None @ log_sys_error r
      = useUnencryptedDNS m (l_settings s) True r"
    by (simp add: useUnencryptedDNS_split)
  with Some show ?thesis
    by (simp add: fallback_then_wait_def fallback_return_def Run_step_def loop_defs backoff_def)
qed

lemma process_failure:
  assumes "loop_inv s" "loc s = Starting h \<or> loc s = Readiness h"
  shows "loc (foldl (Run_step m) s (Ret (Some e) # fallback_return m s r)) = LogWait
    \<and> trace (foldl (Run_step m) s (Ret (Some e) # fallback_return m s r)) =
        trace s @ [Cancel h] @ useUnencryptedDNS m (l_settings s) True r @ backoff (Some e)"
proof -
  from assms have u: "unboundCancel s = Some h"
    by (auto simp: inv_defs)
  have f: "fallback_return m (emit [Cancel h] s) r = fallback_return m s r"
    by (simp add: fallback_return_def emit_def)
  from assms(2) have "Run_step m s (Ret (Some e)) = fallback_then_wait m (Some e) (emit [Cancel h] s)"
    using u by (auto simp: Run_step_def stuck_def call_unboundCancel_def)
  moreover from assms(2) have "loc (emit [Cancel h] s) \<noteq> Returned" "\<not> stuck (emit [Cancel h] s)"
    by (auto simp: emit_def stuck_def)
  ultimately show ?thesis
    using fallback_steps [of "emit [Cancel h] s" m "Some e" r] f
    by (simp add: emit_def)
qed

lemma exit_failure:
  assumes "loop_inv s" "loc s = Active"
  shows "\<exists>h. unboundCancel s = Some h
    \<and> loc (foldl (Run_step m) s (Exited x # fallback_return m s r)) = LogWait
    \<and> trace (foldl (Run_step m) s (Exited x # fallback_return m s r)) =
        trace s @ [ConsumeExit h, CloseExit h, Cancel h]
          @ useUnencryptedDNS m (l_settings s) True r @ backoff x"
proof -
  from assms obtain h where h: "unboundCancel s = Some h" "waitError s = Pending h"
    by (auto simp: inv_defs split: option.splits)
  let ?s1 = "emit [Cancel h] (emit [ConsumeExit h, CloseExit h] (s\<lparr>waitError := Closed\<rparr>))"
  have f: "fallback_return m ?s1 r = fallback_return m s r"
    by (simp add: fallback_return_def emit_def)
  from assms(2) h have "Run_step m s (Exited x) = fallback_then_wait m x ?s1"
    by (simp add: Run_step_def stuck_def call_unboundCancel_def emit_def)
  moreover from assms(2) have "loc ?s1 \<noteq> Returned" "\<not> stuck ?s1"
    by (auto simp: emit_def stuck_def)
  ultimately show ?thesis
    using fallback_steps [of ?s1 m x r] f h(1)
    by (simp add: emit_def)
qed

lemma retry_after_backoff:
  assumes "loop_inv s" "loc s = LogWait" "\<not> ctx_done s"
  shows "loc (foldl (Run_step m) s [TimerFired]) = Hints
    \<and> trace (foldl (Run_step m) s [TimerFired]) = trace s @ [DownloadRootHints]
    \<and> loc (foldl (Run_step m) s
          [TimerFired, Ret None, Ret None, Ret None, Ret None, Ret None, Ret None]) = Active"
proof (cases "triggeredRestart s")
  case True
  with assms obtain h where h: "unboundCancel s = Some h" "waitError s = Pending h" "isEnabled s"
    by (auto simp: inv_defs split: option.splits)
  with assms True show ?thesis
    by (simp add: Run_step_def loop_defs after_setup_def Let_def)
next
  case False
  with assms have "isEnabled s" by (auto simp: inv_defs)
  with assms False show ?thesis
    by (simp add: Run_step_def loop_defs after_setup_def Let_def)
qed

lemma backoff_interruptible:
  assumes "loc s = LogWait"
  shows "loc (foldl (Run_step m) s [CtxDone]) = Returned"
  using assms by (simp add: Run_step_def loop_defs)

lemma returned_only_cancelled: "loop_inv s \<Longrightarrow> loc s = Returned \<Longrightarrow> ctx_done s"
  by (simp add: inv_defs)

text \<open>
  C8, amended. A setup failure is logged and followed by the 10 second timer. A launch or
  readiness failure cancels the context of the resolver, then engages the plaintext
  fallback, and only then logs the failure and starts the timer; an unexpected exit is
  handled the same way after the exit signal was received. The wait ends at once on
  cancellation, and the loop then returns. When the timer fires and the context is not
  cancelled, the loop starts again with \<open>DownloadRootHints\<close> and, if the calls succeed,
  reaches the inner \<open>select\<close>. The loop returns only when the context is cancelled.
\<close>

theorem C8_failure_recovery:
  "(setup_pc (loc (Run m st evs)) \<longrightarrow>
      loc (Run m st (evs @ [Ret (Some e)])) = LogWait
      \<and> trace (Run m st (evs @ [Ret (Some e)])) = trace (Run m st evs) @ backoff (Some e))
   \<and> (loc (Run m st evs) = Starting h \<or> loc (Run m st evs) = Readiness h \<longrightarrow>
      loc (Run m st (evs @ Ret (Some e) # fallback_return m (Run m st evs) r)) = LogWait
      \<and> trace (Run m st (evs @ Ret (Some e) # fallback_return m (Run m st evs) r)) =
          trace (Run m st evs) @ [Cancel h]
            @ useUnencryptedDNS m (l_settings (Run m st evs)) True r @ backoff (Some e))
   \<and> (loc (Run m st evs) = Active \<longrightarrow>
      (\<exists>h'. unboundCancel (Run m st evs) = Some h'
         \<and> loc (Run m st (evs @ Exited x # fallback_return m (Run m st evs) r)) = LogWait
         \<and> trace (Run m st (evs @ Exited x # fallback_return m (Run m st evs) r)) =
             trace (Run m st evs) @ [ConsumeExit h', CloseExit h', Cancel h']
               @ useUnencryptedDNS m (l_settings (Run m st evs)) True r @ backoff x))
   \<and> (loc (Run m st evs) = LogWait \<longrightarrow>
      loc (Run m st (evs @ [CtxDone])) = Returned)
   \<and> (loc (Run m st evs) = LogWait \<and> \<not> ctx_done (Run m st evs) \<longrightarrow>
      loc (Run m st (evs @ [TimerFired])) = Hints
      \<and> trace (Run m st (evs @ [TimerFired])) = trace (Run m st evs) @ [DownloadRootHints]
      \<and> loc (Run m st (evs @ [TimerFired, Ret None, Ret None, Ret None, Ret None, Ret None,
               Ret None])) = Active)
   \<and> (loc (Run m st evs) = Returned \<longrightarrow> ctx_done (Run m st evs))"
  using setup_failure [of "Run m st evs" m e]
    process_failure [OF inv_Run, of m st evs h m e r]
    exit_failure [OF inv_Run, of m st evs m x r]
    backoff_interruptible [of "Run m st evs" m]
    retry_after_backoff [OF inv_Run, of m st evs m]
    returned_only_cancelled [OF inv_Run, of m st evs]
  by (simp only: Run_append) blast

text \<open>
  C8 as stated has the failure logged before the fallback is engaged. When \<open>conf.Start\<close>
  fails, the fallback address is applied first and the failure is logged after it.
\<close>

theorem C8_logged_after_fallback:
  "drop 6 (trace (Run mapping0 settings0
      [Ret None, Cmd Start, Ret None, Ret None, Ret None, Ret (Some ''bind failed''), Ret None]))
     = [ConfStart 0 1, Cancel 0, Info (FallingBack [1, 1, 1, 1]), UseDNSInternally [1, 1, 1, 1],
        UseDNSSystemWide [1, 1, 1, 1] False, Warn (Failure (Some ''bind failed'')),
        Info AttemptRestart10s, NewTimer10s]
   \<and> \<not> precedes (Warn (Failure (Some ''bind failed''))) (UseDNSInternally [1, 1, 1, 1])
        (trace (Run mapping0 settings0
          [Ret None, Cmd Start, Ret None, Ret None, Ret None, Ret (Some ''bind failed''), Ret None]))
   \<and> precedes (UseDNSInternally [1, 1, 1, 1]) (Warn (Failure (Some ''bind failed'')))
        (drop 6 (trace (Run mapping0 settings0
          [Ret None, Cmd Start, Ret None, Ret None, Ret None, Ret (Some ''bind failed''), Ret None])))"
  by code_simp

theorem C8_witness:
  "loc (Run mapping0 settings0 [Ret None, Cmd Start, Ret None, Ret None, Ret None]) = Starting 0
   \<and> trace (Run mapping0 settings0
        ([Ret None, Cmd Start, Ret None, Ret None, Ret None] @ [Ret (Some ''bind failed''), Ret None])) =
       trace (Run mapping0 settings0 [Ret None, Cmd Start, Ret None, Ret None, Ret None])
        @ [Cancel 0, Info (FallingBack [1, 1, 1, 1]), UseDNSInternally [1, 1, 1, 1],
           UseDNSSystemWide [1, 1, 1, 1] False, Warn (Failure (Some ''bind failed'')),
           Info AttemptRestart10s, NewTimer10s]
   \<and> loc (Run mapping0 settings0
        [Ret None, Cmd Start, Ret None, Ret None, Ret None, Ret (Some ''bind failed''), Ret None]) = LogWait
   \<and> \<not> ctx_done (Run mapping0 settings0
        [Ret None, Cmd Start, Ret None, Ret None, Ret None, Ret (Some ''bind failed''), Ret None])
   \<and> loc (Run mapping0 settings0
        ([Ret None, Cmd Start, Ret None, Ret None, Ret None, Ret (Some ''bind failed''), Ret None]
          @ [TimerFired, Ret None, Ret None, Ret None, Ret None, Ret None, Ret None])) = Active
   \<and> setup_pc (loc (Run mapping0 settings0 [Ret None, Cmd Start]))
   \<and> trace (Run mapping0 settings0 ([Ret None, Cmd Start] @ [Ret (Some ''no route'')])) =
       trace (Run mapping0 settings0 [Ret None, Cmd Start])
        @ [Warn (Failure (Some ''no route'')), Info AttemptRestart10s, NewTimer10s]"
proof -
  have h1: "loc (Run mapping0 settings0 [Ret None, Cmd Start, Ret None, Ret None, Ret None]) = Starting 0"
    by code_simp
  have f1: "fallback_return mapping0
      (Run mapping0 settings0 [Ret None, Cmd Start, Ret None, Ret None, Ret None]) None = [Ret None]"
    by code_simp
  have u1: "useUnencryptedDNS mapping0
      (l_settings (Run mapping0 settings0 [Ret None, Cmd Start, Ret None, Ret None, Ret None])) True None
      = [Info (FallingBack [1, 1, 1, 1]), UseDNSInternally [1, 1, 1, 1],
         UseDNSSystemWide [1, 1, 1, 1] False]"
    by code_simp
  have h2: "loc (Run mapping0 settings0
        [Ret None, Cmd Start, Ret None, Ret None, Ret None, Ret (Some ''bind failed''), Ret None]) = LogWait
     \<and> \<not> ctx_done (Run mapping0 settings0
        [Ret None, Cmd Start, Ret None, Ret None, Ret None, Ret (Some ''bind failed''), Ret None])"
    by code_simp
  have h3: "setup_pc (loc (Run mapping0 settings0 [Ret None, Cmd Start]))"
    by code_simp
  from C8_failure_recovery [where m = mapping0 and st = settings0
      and evs = "[Ret None, Cmd Start, Ret None, Ret None, Ret None]"
      and e = "''bind failed''" and h = 0 and r = None]
    C8_failure_recovery [where m = mapping0 and st = settings0
      and evs = "[Ret None, Cmd Start, Ret None, Ret None, Ret None, Ret (Some ''bind failed''), Ret None]"]
    C8_failure_recovery [where m = mapping0 and st = settings0
      and evs = "[Ret None, Cmd Start]" and e = "''no route''"]
    h1 f1 u1 h2 h3
  show ?thesis by (simp add: backoff_def)
qed

subsection \<open>The server list\<close>

lemma make_server_valid:
  "valid_server P j \<Longrightarrow> \<exists>sv. make_server P j = Inr sv \<and> made_from P j sv"
  by (auto simp: valid_server_def valid_ipv4_def valid_id_def make_server_def made_from_def
      ParseUint16_def unat_of_nat take_bit_nat_eq_self split: option.splits if_splits)

lemma make_server_invalid:
  "\<not> valid_server P j \<Longrightarrow> \<exists>e. make_server P j = Inl e"
  by (auto simp: valid_server_def valid_ipv4_def valid_id_def make_server_def
      split: option.splits)

lemma servers_loop_step:
  "servers_loop P (j # rest) acc ws =
     (if \<not> supported j then servers_loop P rest acc (ws @ [NoTCPNorUDP (Name j)])
      else (case make_server P j of
              Inl e \<Rightarrow> Inl e
            | Inr sv \<Rightarrow> servers_loop P rest (acc @ [sv]) ws))"
  by (simp add: supported_def)

lemma servers_loop_ok:
  "list_all (valid_server P) (filter supported ds) \<Longrightarrow>
   \<exists>svs. servers_loop P ds acc ws =
           Inr (acc @ svs, ws @ map NoTCPNorUDP (map Name (filter (\<lambda>j. \<not> supported j) ds)))
         \<and> list_all2 (made_from P) (filter supported ds) svs"
proof (induction ds arbitrary: acc ws)
  case Nil
  show ?case by simp
next
  case (Cons j ds)
  show ?case
  proof (cases "supported j")
    case False
    with Cons.prems have "list_all (valid_server P) (filter supported ds)" by simp
    from Cons.IH [OF this, of acc "ws @ [NoTCPNorUDP (Name j)]"] False
    show ?thesis by (simp add: servers_loop_step del: servers_loop.simps)
  next
    case True
    with Cons.prems have v: "valid_server P j" and r: "list_all (valid_server P) (filter supported ds)"
      by simp_all
    from make_server_valid [OF v] obtain sv where sv: "make_server P j = Inr sv" "made_from P j sv"
      by blast
    from Cons.IH [OF r, of "acc @ [sv]" ws] obtain svs where
      "servers_loop P ds (acc @ [sv]) ws =
         Inr ((acc @ [sv]) @ svs, ws @ map NoTCPNorUDP (map Name (filter (\<lambda>j. \<not> supported j) ds)))"
      "list_all2 (made_from P) (filter supported ds) svs"
      by blast
    with True sv show ?thesis
      by (intro exI [of _ "sv # svs"]) (simp add: servers_loop_step del: servers_loop.simps)
  qed
qed

lemma servers_loop_error:
  "\<not> list_all (valid_server P) (filter supported ds) \<Longrightarrow> \<exists>e. servers_loop P ds acc ws = Inl e"
proof (induction ds arbitrary: acc ws)
  case Nil
  then show ?case by simp
next
  case (Cons j ds)
  show ?case
  proof (cases "supported j")
    case False
    with Cons.prems have "\<not> list_all (valid_server P) (filter supported ds)" by simp
    from Cons.IH [OF this, of acc "ws @ [NoTCPNorUDP (Name j)]"] False
    show ?thesis by (simp add: servers_loop_step del: servers_loop.simps)
  next
    case True
    show ?thesis
    proof (cases "valid_server P j")
      case False
      from make_server_invalid [OF False] True show ?thesis
        by (auto simp: servers_loop_step simp del: servers_loop.simps)
    next
      case v: True
      with True Cons.prems have r: "\<not> list_all (valid_server P) (filter supported ds)" by simp
      from make_server_valid [OF v] obtain sv where sv: "make_server P j = Inr sv" by blast
      from Cons.IH [OF r, of "acc @ [sv]" ws] True sv show ?thesis
        by (simp add: servers_loop_step del: servers_loop.simps)
    qed
  qed
qed

lemma not_less_server: "\<not> less_server b a \<longleftrightarrow> by_country_then_name a b"
  by (auto simp: less_server_def by_country_then_name_def)

lemma regions_of_made: "list_all2 (made_from P) ds svs \<Longrightarrow> map Region svs = map Country ds"
  by (induction rule: list_all2_induct) (simp_all add: made_from_def)

lemma sorted_regions:
  assumes "sorted_wrt by_country_then_name ds" "list_all2 (made_from P) ds svs"
  shows "sorted (map Region svs)"
proof -
  from assms(1) have "sorted_wrt (\<lambda>a b. Country a \<le> Country b) ds"
    by (rule sorted_wrt_mono_rel [rotated]) (auto simp: by_country_then_name_def)
  then have "sorted (map Country ds)" by (simp add: sorted_map)
  with regions_of_made [OF assms(2)] show ?thesis by simp
qed

lemma sort_Slice0_contract:
  "mset (sort_Slice0 less_server xs) = mset xs
   \<and> sorted_wrt (\<lambda>a b. \<not> less_server b a) (sort_Slice0 less_server xs)"
proof -
  have "sorted (map (\<lambda>j. (Country j, Name j)) (sort_key (\<lambda>j. (Country j, Name j)) xs))"
    by (rule sorted_sort_key)
  then have "sorted_wrt (\<lambda>a b. (Country a, Name a) \<le> (Country b, Name b))
      (sort_key (\<lambda>j. (Country j, Name j)) xs)"
    by (simp add: sorted_map)
  then have "sorted_wrt (\<lambda>a b. \<not> less_server b a) (sort_key (\<lambda>j. (Country j, Name j)) xs)"
    by (rule sorted_wrt_mono_rel [rotated]) (auto simp: less_server_def less_eq_prod_def)
  then show ?thesis by (simp add: sort_Slice0_def)
qed

lemma valid_id_suffix:
  "valid_id j \<Longrightarrow>
   \<exists>i<length (Name j). Name j ! i = CHR ''#'' \<and> ParseUint16 (drop (i + 1) (Name j)) \<noteq> None"
proof -
  have "IndexRune s c = Some i \<Longrightarrow> i < length s \<and> s ! i = c" for s c i
    by (induction s arbitrary: i) (auto split: if_splits)
  then show "valid_id j \<Longrightarrow> ?thesis"
    by (auto simp: valid_id_def split: option.splits)
qed

text \<open>
  C10. The list has been fetched with status 200 and decoded, and \<open>sort.Slice\<close> does
  what it promises: it permutes the list into an order in which no element is less than
  an earlier one. Then the servers that support TCP or UDP are, in the sorted list, ordered
  by country and within a country by name. If each of them has an address that parses
  with a non-nil \<open>To4\<close> and a name whose text after the first \<open>#\<close> is a decimal number
  up to 65535, the call returns one server for each of them, in that order (so the
  regions of the result are sorted), and one warning for each of the others. Otherwise
  the call returns an error, which carries no servers. A name that passes the test has,
  by \<open>valid_id_suffix\<close>, a suffix after some \<open>#\<close> that parses; so a name without such a
  suffix makes the call fail.
\<close>

theorem C10_findNordvpnServers:
  assumes "\<And>xs. mset (sort_Slice less_server xs) = mset xs
             \<and> sorted_wrt (\<lambda>a b. \<not> less_server b a) (sort_Slice less_server xs)"
    and "Unmarshal bytes = Inr data"
  shows "mset (sort_Slice less_server data) = mset data
     \<and> sorted_wrt by_country_then_name (filter supported (sort_Slice less_server data))
     \<and> (if list_all (valid_server ParseIP) (filter supported (sort_Slice less_server data))
         then \<exists>servers.
                findNordvpnServers sort_Slice ParseIP Unmarshal (Inr (bytes, 200)) =
                  Inr (servers, map NoTCPNorUDP (map Name
                         (filter (\<lambda>j. \<not> supported j) (sort_Slice less_server data))))
                \<and> list_all2 (made_from ParseIP) (filter supported (sort_Slice less_server data)) servers
                \<and> sorted (map Region servers)
         else \<exists>e. findNordvpnServers sort_Slice ParseIP Unmarshal (Inr (bytes, 200)) = Inl e)"
proof -
  let ?ds = "sort_Slice less_server data"
  from assms(1) have m: "mset ?ds = mset data" by simp
  from assms(1) have "sorted_wrt (\<lambda>a b. \<not> less_server b a) ?ds" by simp
  then have "sorted_wrt by_country_then_name ?ds" by (simp add: not_less_server)
  then have s: "sorted_wrt by_country_then_name (filter supported ?ds)"
    by (rule sorted_wrt_filter)
  have f: "findNordvpnServers sort_Slice ParseIP Unmarshal (Inr (bytes, 200)) =
      servers_loop ParseIP ?ds [] []"
    using assms(2) by (simp add: findNordvpnServers_def)
  show ?thesis
  proof (cases "list_all (valid_server ParseIP) (filter supported ?ds)")
    case True
    from servers_loop_ok [OF True, of "[]" "[]"] obtain svs where
      svs: "servers_loop ParseIP ?ds [] [] =
              Inr (svs, map NoTCPNorUDP (map Name (filter (\<lambda>j. \<not> supported j) ?ds)))"
        "list_all2 (made_from ParseIP) (filter supported ?ds) svs"
      by auto
    from sorted_regions [OF s svs(2)] svs f True m s show ?thesis by simp
  next
    case False
    from servers_loop_error [OF False, of "[]" "[]"] f False m s show ?thesis by simp
  qed
qed

theorem C10_witness:
  "Unmarshal0 ''x'' = Inr data0
   \<and> list_all (valid_server ParseIP0) (filter supported (sort_Slice0 less_server data0))
   \<and> (\<exists>servers. findNordvpnServers sort_Slice0 ParseIP0 Unmarshal0 (Inr (''x'', 200)) =
          Inr (servers, [NoTCPNorUDP ''France'']) \<and> sorted (map Region servers))"
proof -
  have h: "Unmarshal0 ''x'' = Inr data0" by (simp add: Unmarshal0_def)
  have s: "sort_Slice0 less_server data0 = [data0 ! 1, data0 ! 2, data0 ! 0]"
    by (simp add: sort_Slice0_def data0_def sort_key_def less_eq_prod_def)
  have v: "list_all (valid_server ParseIP0) (filter supported (sort_Slice0 less_server data0))"
    unfolding s
    by (simp add: data0_def supported_def valid_server_def valid_ipv4_def valid_id_def
        ParseIP0_def To4_def ParseUint16_def digit_def)
  have w: "map NoTCPNorUDP (map Name (filter (\<lambda>j. \<not> supported j) (sort_Slice0 less_server data0)))
      = [NoTCPNorUDP ''France'']"
    unfolding s by (simp add: data0_def supported_def)
  from C10_findNordvpnServers [of sort_Slice0 Unmarshal0 "''x''" data0 ParseIP0,
      OF sort_Slice0_contract h] v w h
  show ?thesis by auto
qed

end
